theory Spec2Isabelle
  imports Main
begin

section \<open>The account validator of package vos\<close>

text \<open>
  The Go source validates an account path in one left-to-right scan over the
  input, threading a small state record, and then runs three checks on the
  final state. A Go string is a sequence of bytes, which is what
  \<^typ>\<open>string\<close> is here.

  The source ranges over the runes of the input. Every byte below 128 is a
  rune of its own with the byte's value. A byte from 128 on either starts a
  multi-byte rune (whose value is at least 128) or is decoded as U+FFFD; in
  both cases the rune matches no case of the switch but \<open>default\<close>, and the
  function returns \<open>ErrInvalidAccountComponentCharacters\<close> before it
  looks at any later byte. The scan below therefore reads the input byte by
  byte, with the rune of a byte being the byte's value.

  The counters are Go \<open>uint\<close>s. Each is bounded by the number of
  bytes read so far, and a Go string is shorter than \<open>2^63\<close> bytes, so no
  counter can wrap around: they are natural numbers here.
\<close>

subsection \<open>Data\<close>

datatype AccountType = Analytic | Synthetic

record Account =
  accountType :: AccountType
  "value" :: string

text \<open>
  Modelled from the spec: the error values of package \<open>app\<close> are declared
  outside the sources at hand; only their names occur in the validator. The
  spec lists them as distinct kinds, so they are the constructors of one
  datatype.
\<close>

datatype error =
    ErrInvalidAccountStructure
  | ErrInvalidAccountComponentSize
  | ErrAccountPathViolation
  | ErrInvalidSingleAccountComponentCharacters
  | ErrInvalidAccountComponentCharacters

text \<open>Available classes.\<close>

definition asset :: string where "asset = ''asset''"
definition conciliateCredit :: string where "conciliateCredit = ''conciliate_credit''"
definition conciliateDebit :: string where "conciliateDebit = ''conciliate_debit''"
definition equity :: string where "equity = ''equity''"
definition expense :: string where "expense = ''expense''"
definition liability :: string where "liability = ''liability''"
definition revenue :: string where "revenue = ''revenue''"

text \<open>Symbols, as rune values.\<close>

definition rune :: "char \<Rightarrow> nat" where "rune c = of_char c"

definition lowerLetterStart :: nat where "lowerLetterStart = rune CHR ''a''"
definition lowerLetterEnd :: nat where "lowerLetterEnd = rune CHR ''z''"
definition digitStart :: nat where "digitStart = rune CHR ''0''"
definition digitEnd :: nat where "digitEnd = rune CHR ''9''"
definition upperLetterStart :: nat where "upperLetterStart = rune CHR ''A''"
definition upperLetterEnd :: nat where "upperLetterEnd = rune CHR ''Z''"
definition underscore :: nat where "underscore = rune CHR ''_''"
definition dot :: nat where "dot = rune CHR ''.''"
definition star :: nat where "star = rune CHR ''*''"

text \<open>Limits.\<close>

definition maxLabelSize :: nat where "maxLabelSize = 256"
definition maxComponents :: nat where "maxComponents = 65535"

record state =
  totalComponents :: nat
  componentSize :: nat
  strategy :: AccountType
  needsLower :: bool
  componentHasStar :: bool

subsection \<open>The operations\<close>

text \<open>
  The body of the two \<open>switch account[:st.componentSize]\<close> statements: the
  cases that fall through without an error.
\<close>

definition isClass :: "string \<Rightarrow> bool" where
  "isClass s \<longleftrightarrow>
     s = asset \<or> s = conciliateCredit \<or> s = conciliateDebit \<or> s = equity
     \<or> s = expense \<or> s = revenue \<or> s = liability"

text \<open>
  \<open>treatDot\<close>. The slice \<open>account[:st.componentSize]\<close> is
  \<^term>\<open>take (componentSize st) account\<close>; it cannot be out of range, as
  \<open>componentSize\<close> never exceeds the number of bytes read.
\<close>

definition treatDot :: "string \<Rightarrow> state \<Rightarrow> error + state" where
  "treatDot account st =
     (if componentSize st = 0 \<or> componentSize st > maxLabelSize
      then Inl ErrInvalidAccountComponentSize
      else if totalComponents st = 0 \<and> \<not> componentHasStar st
      then (if isClass (take (componentSize st) account)
            then Inr (st\<lparr>totalComponents := totalComponents st + 1,
                         componentSize := 0, componentHasStar := False\<rparr>)
            else Inl ErrAccountPathViolation)
      else if totalComponents st \<ge> maxComponents
      then Inl ErrInvalidAccountStructure
      else Inr (st\<lparr>totalComponents := totalComponents st + 1,
                   componentSize := 0, componentHasStar := False\<rparr>))"

definition treatStar :: "state \<Rightarrow> error + state" where
  "treatStar st =
     (if componentHasStar st then Inl ErrInvalidAccountStructure
      else Inr (st\<lparr>strategy := Synthetic,
                   componentSize := componentSize st + 1,
                   componentHasStar := True\<rparr>))"

text \<open>One iteration of the loop of \<open>newAccount\<close>: the switch on the rune.\<close>

definition step :: "bool \<Rightarrow> string \<Rightarrow> char \<Rightarrow> state \<Rightarrow> error + state" where
  "step analyticOnly account c st =
     (let r = rune c in
      if lowerLetterStart \<le> r \<and> r \<le> lowerLetterEnd
      then Inr (st\<lparr>componentSize := componentSize st + 1\<rparr>)
      else if digitStart \<le> r \<and> r \<le> digitEnd
      then Inr (st\<lparr>componentSize := componentSize st + 1\<rparr>)
      else if upperLetterStart \<le> r \<and> r \<le> upperLetterEnd
      then Inr (st\<lparr>componentSize := componentSize st + 1, needsLower := True\<rparr>)
      else if r = underscore
      then Inr (st\<lparr>componentSize := componentSize st + 1\<rparr>)
      else if r = dot
      then treatDot account st
      else if r = star
      then (if analyticOnly then Inl ErrInvalidSingleAccountComponentCharacters
            else treatStar st)
      else Inl ErrInvalidAccountComponentCharacters)"

text \<open>
  The loop: the remaining input is the third argument, the whole input (which
  \<open>treatDot\<close> slices) the second. The first error ends the scan.
\<close>

fun scan :: "bool \<Rightarrow> string \<Rightarrow> string \<Rightarrow> state \<Rightarrow> error + state" where
  "scan analyticOnly account [] st = Inr st"
| "scan analyticOnly account (c # cs) st =
     (case step analyticOnly account c st of
        Inl e \<Rightarrow> Inl e
      | Inr st' \<Rightarrow> scan analyticOnly account cs st')"

text \<open>\<open>lowerAccount\<close>: each byte from \<open>A\<close> to \<open>Z\<close> is moved up by \<open>'a' - 'A'\<close>.\<close>

definition lowerByte :: "char \<Rightarrow> char" where
  "lowerByte c =
     (if rune CHR ''A'' \<le> rune c \<and> rune c \<le> rune CHR ''Z''
      then char_of (rune c + (rune CHR ''a'' - rune CHR ''A''))
      else c)"

definition lowerAccount :: "string \<Rightarrow> string" where
  "lowerAccount account = map lowerByte account"

text \<open>The state \<open>&state{strategy: Analytic}\<close> the scan starts from.\<close>

definition initialState :: state where
  "initialState = \<lparr>totalComponents = 0, componentSize = 0, strategy = Analytic,
                   needsLower = False, componentHasStar = False\<rparr>"

text \<open>
  \<open>newAccount\<close>. After a loop that ran to the end of a non-empty input, the
  loop variable \<open>r\<close> holds the last rune, which is the last byte. The value
  \<open>result\<close> is the account of the final \<open>return\<close>, which both the class
  check that passes and the length check that passes fall through to.
\<close>

definition newAccount :: "string \<Rightarrow> bool \<Rightarrow> error + Account" where
  "newAccount account analyticOnly =
     (if length account = 0 then Inl ErrInvalidAccountStructure
      else case scan analyticOnly account account initialState of
        Inl err \<Rightarrow> Inl err
      | Inr st \<Rightarrow>
          let result = Inr \<lparr>accountType = strategy st,
                            value = (if needsLower st then lowerAccount account
                                     else account)\<rparr>
          in if rune (last account) = dot then Inl ErrInvalidAccountComponentSize
             else if totalComponents st = 0 \<and> \<not> componentHasStar st
             then (if isClass (take (componentSize st) account) then result
                   else Inl ErrAccountPathViolation)
             else if totalComponents st < 2 \<and> strategy st \<noteq> Synthetic
             then Inl ErrInvalidAccountStructure
             else result)"

definition NewAnalyticAccount :: "string \<Rightarrow> error + Account" where
  "NewAnalyticAccount account = newAccount account True"

definition NewAccount :: "string \<Rightarrow> error + Account" where
  "NewAccount account = newAccount account False"

subsection \<open>Notions the properties are stated with\<close>

text \<open>The runes that only add to the length of the current label.\<close>

definition isUpper :: "char \<Rightarrow> bool" where
  "isUpper c \<longleftrightarrow> upperLetterStart \<le> rune c \<and> rune c \<le> upperLetterEnd"

definition isPlain :: "char \<Rightarrow> bool" where
  "isPlain c \<longleftrightarrow>
     (lowerLetterStart \<le> rune c \<and> rune c \<le> lowerLetterEnd)
     \<or> (digitStart \<le> rune c \<and> rune c \<le> digitEnd)
     \<or> isUpper c \<or> rune c = underscore"

text \<open>The first dot-separated label of an input: everything before the first dot.\<close>

definition firstLabel :: "string \<Rightarrow> string" where
  "firstLabel account = takeWhile (\<lambda>c. c \<noteq> CHR ''.'') account"

text \<open>
  The number of dot-separated labels of an input: one more than the number
  of dots.
\<close>

definition labelCount :: "string \<Rightarrow> nat" where
  "labelCount account = Suc (length (filter (\<lambda>c. c = CHR ''.'') account))"

section \<open>Properties\<close>

subsection \<open>The switch on the rune\<close>

lemma rune_values:
  "lowerLetterStart = 97" "lowerLetterEnd = 122" "digitStart = 48" "digitEnd = 57"
  "upperLetterStart = 65" "upperLetterEnd = 90" "underscore = 95" "dot = 46" "star = 42"
  by (simp_all add: lowerLetterStart_def lowerLetterEnd_def digitStart_def digitEnd_def
      upperLetterStart_def upperLetterEnd_def underscore_def dot_def star_def rune_def)

lemma rune_eq_dot: "rune c = dot \<longleftrightarrow> c = CHR ''.''"
  unfolding dot_def rune_def by (rule of_char_eq_iff)

lemma rune_eq_star: "rune c = star \<longleftrightarrow> c = CHR ''*''"
  unfolding star_def rune_def by (rule of_char_eq_iff)

text \<open>
  The unfoldings that evaluate the validator on a given input.
\<close>

lemmas validator_defs =
  NewAccount_def NewAnalyticAccount_def newAccount_def initialState_def step_def
  treatDot_def treatStar_def rune_def rune_values isClass_def asset_def
  conciliateCredit_def conciliateDebit_def equity_def expense_def liability_def
  revenue_def maxLabelSize_def maxComponents_def lowerAccount_def lowerByte_def
  char_of_eq_iff Let_def

lemma step_dot: "step ao acc CHR ''.'' st = treatDot acc st"
  by (simp add: step_def rune_values rune_def)

lemma step_star:
  "step ao acc CHR ''*'' st =
     (if ao then Inl ErrInvalidSingleAccountComponentCharacters else treatStar st)"
  by (simp add: step_def rune_values rune_def)

lemma step_other:
  assumes "c \<noteq> CHR ''.''" "c \<noteq> CHR ''*''"
  shows "step ao acc c st =
     (if isPlain c
      then Inr (st\<lparr>componentSize := componentSize st + 1,
                   needsLower := needsLower st \<or> isUpper c\<rparr>)
      else Inl ErrInvalidAccountComponentCharacters)"
proof -
  have "rune c \<noteq> dot" "rune c \<noteq> star"
    using assms by (simp_all add: rune_eq_dot rune_eq_star)
  then show ?thesis
    by (auto simp: step_def Let_def isPlain_def isUpper_def rune_values)
qed

lemma scan_append:
  "scan ao acc (xs @ ys) st =
     (case scan ao acc xs st of Inl e \<Rightarrow> Inl e | Inr st' \<Rightarrow> scan ao acc ys st')"
  by (induction xs arbitrary: st) (auto split: sum.splits)

text \<open>
  What the validator has checked when it returns an account.
\<close>

lemma newAccount_InrD:
  assumes "newAccount account ao = Inr a"
  obtains st where "account \<noteq> []"
    and "scan ao account account initialState = Inr st"
    and "last account \<noteq> CHR ''.''"
    and "totalComponents st = 0 \<and> \<not> componentHasStar st
           \<longrightarrow> isClass (take (componentSize st) account)"
    and "\<not> (totalComponents st = 0 \<and> \<not> componentHasStar st)
           \<longrightarrow> 2 \<le> totalComponents st \<or> strategy st = Synthetic"
    and "a = \<lparr>accountType = strategy st,
              value = (if needsLower st then lowerAccount account else account)\<rparr>"
  using assms
  by (auto simp: newAccount_def Let_def rune_eq_dot split: if_splits sum.splits)

subsection \<open>The two constructors on wildcard-free input\<close>

lemma step_mode_irrelevant:
  "c \<noteq> CHR ''*'' \<Longrightarrow> step True acc c st = step False acc c st"
  by (cases "c = CHR ''.''") (simp_all add: step_dot step_other)

lemma scan_mode_irrelevant:
  "CHR ''*'' \<notin> set cs \<Longrightarrow> scan True acc cs st = scan False acc cs st"
  by (induction cs arbitrary: st) (auto simp: step_mode_irrelevant split: sum.splits)

text \<open>
  C9. \<open>NewAccount\<close> and \<open>NewAnalyticAccount\<close> agree on every input
  without a \<open>*\<close>: they return the same account (value and type) on success
  and the same error on failure. The flag \<open>analyticOnly\<close> is read in the
  \<open>*\<close> case of the switch only.
\<close>

theorem constructors_agree_without_wildcard:
  assumes "CHR ''*'' \<notin> set account"
  shows "NewAccount account = NewAnalyticAccount account"
  using assms
  by (simp add: NewAccount_def NewAnalyticAccount_def newAccount_def scan_mode_irrelevant)

theorem constructors_agree_without_wildcard_witness:
  "CHR ''*'' \<notin> set ''asset.account.treasury''
   \<and> NewAccount ''asset.account.treasury'' = NewAnalyticAccount ''asset.account.treasury''
   \<and> NewAnalyticAccount ''asset.account.treasury''
       = Inr \<lparr>accountType = Analytic, value = ''asset.account.treasury''\<rparr>"
proof -
  have h: "CHR ''*'' \<notin> set ''asset.account.treasury''"
    by simp
  have "NewAnalyticAccount ''asset.account.treasury''
       = Inr \<lparr>accountType = Analytic, value = ''asset.account.treasury''\<rparr>"
    by (simp add: validator_defs)
  with h constructors_agree_without_wildcard [OF h] show ?thesis
    by simp
qed

subsection \<open>The type of an accepted account\<close>

lemma treatDot_strategy: "treatDot acc st = Inr st' \<Longrightarrow> strategy st' = strategy st"
  by (auto simp: treatDot_def split: if_splits)

lemma step_strategy:
  assumes "step False acc c st = Inr st'"
  shows "strategy st' = (if c = CHR ''*'' then Synthetic else strategy st)"
proof (cases "c = CHR ''*''")
  case True
  with assms show ?thesis
    by (auto simp: step_star treatStar_def split: if_splits)
next
  case False
  with assms show ?thesis
    by (cases "c = CHR ''.''")
       (auto simp: step_dot step_other treatDot_strategy split: if_splits)
qed

lemma scan_strategy:
  "scan False acc cs st = Inr st' \<Longrightarrow>
   strategy st' = (if CHR ''*'' \<in> set cs then Synthetic else strategy st)"
proof (induction cs arbitrary: st)
  case Nil
  then show ?case by simp
next
  case (Cons c cs)
  then obtain st1 where s1: "step False acc c st = Inr st1"
    and s2: "scan False acc cs st1 = Inr st'"
    by (auto split: sum.splits)
  from Cons.IH [OF s2] step_strategy [OF s1] show ?case
    by auto
qed

lemma scan_needs_no_wildcard:
  "scan True acc cs st = Inr st' \<Longrightarrow> CHR ''*'' \<notin> set cs"
proof (induction cs arbitrary: st)
  case Nil
  then show ?case by simp
next
  case (Cons c cs)
  then show ?case
    by (cases "c = CHR ''*''") (auto simp: step_star split: sum.splits)
qed

lemma scan_analytic_strategy:
  assumes "scan True acc cs st = Inr st'"
  shows "strategy st' = strategy st"
proof -
  have ns: "CHR ''*'' \<notin> set cs"
    using assms by (rule scan_needs_no_wildcard)
  then have "scan False acc cs st = Inr st'"
    using assms by (simp add: scan_mode_irrelevant)
  then show ?thesis
    using ns by (simp add: scan_strategy)
qed

text \<open>
  C10. For every input accepted by \<open>NewAccount\<close>, the type of the returned
  account is Synthetic if and only if the input contains a \<open>*\<close>, and
  Analytic otherwise.
\<close>

theorem account_type_synthetic_iff_wildcard:
  assumes "NewAccount account = Inr a"
  shows "accountType a = (if CHR ''*'' \<in> set account then Synthetic else Analytic)"
proof -
  from assms have "newAccount account False = Inr a"
    by (simp add: NewAccount_def)
  then obtain st where sc: "scan False account account initialState = Inr st"
    and a: "a = \<lparr>accountType = strategy st,
              value = (if needsLower st then lowerAccount account else account)\<rparr>"
    by (rule newAccount_InrD)
  from scan_strategy [OF sc] a show ?thesis
    by (simp add: initialState_def)
qed

theorem account_type_synthetic_iff_wildcard_witness:
  "NewAccount ''asset.*.treasury''
     = Inr \<lparr>accountType = Synthetic, value = ''asset.*.treasury''\<rparr>
   \<and> accountType \<lparr>accountType = Synthetic, value = ''asset.*.treasury''\<rparr>
     = (if CHR ''*'' \<in> set ''asset.*.treasury'' then Synthetic else Analytic)"
proof -
  have h: "NewAccount ''asset.*.treasury''
     = Inr \<lparr>accountType = Synthetic, value = ''asset.*.treasury''\<rparr>"
    by (simp add: validator_defs)
  from h account_type_synthetic_iff_wildcard [OF h] show ?thesis
    by simp
qed

subsection \<open>Wildcards and the analytic constructor\<close>

lemma lowerByte_eq_star: "lowerByte c = CHR ''*'' \<longleftrightarrow> c = CHR ''*''"
proof -
  have "rune (lowerByte c) = star \<longleftrightarrow> rune c = star"
    by (auto simp: lowerByte_def rune_def star_def)
  then show ?thesis
    by (simp add: rune_eq_star)
qed

lemma lowerByte_eq_dot: "lowerByte c = CHR ''.'' \<longleftrightarrow> c = CHR ''.''"
proof -
  have "rune (lowerByte c) = dot \<longleftrightarrow> rune c = dot"
    by (auto simp: lowerByte_def rune_def dot_def)
  then show ?thesis
    by (simp add: rune_eq_dot)
qed

lemma star_in_lowerAccount:
  "CHR ''*'' \<in> set (lowerAccount account) \<longleftrightarrow> CHR ''*'' \<in> set account"
proof -
  have "CHR ''*'' \<in> lowerByte ` set account
        \<longleftrightarrow> (\<exists>c\<in>set account. lowerByte c = CHR ''*'')"
    by (auto simp: image_iff intro: sym)
  then show ?thesis
    by (simp add: lowerAccount_def lowerByte_eq_star)
qed

lemma scan_analytic_at_wildcard:
  assumes "CHR ''*'' \<in> set cs"
  shows "scan True acc cs st =
     (case scan True acc (takeWhile (\<lambda>c. c \<noteq> CHR ''*'') cs) st of
        Inl e \<Rightarrow> Inl e
      | Inr st' \<Rightarrow> Inl ErrInvalidSingleAccountComponentCharacters)"
  using assms
proof (induction cs arbitrary: st)
  case Nil
  then show ?case by simp
next
  case (Cons c cs)
  then show ?case
    by (cases "c = CHR ''*''") (auto simp: step_star split: sum.splits)
qed

text \<open>
  C6, as the source has it. The scan reports the first fault it meets, so an
  input with a \<open>*\<close> is always rejected by \<open>NewAnalyticAccount\<close>, but
  the error is the analytic-only invalid-character error only when the scan
  reaches the first \<open>*\<close>; a fault before it is reported instead. Here
  \<open>foo.*\<close> fails on its class at the first dot.
\<close>

theorem analytic_wildcard_error_counterexample:
  "CHR ''*'' \<in> set ''foo.*''
   \<and> NewAnalyticAccount ''foo.*'' = Inl ErrAccountPathViolation
   \<and> NewAnalyticAccount ''foo.*'' \<noteq> Inl ErrInvalidSingleAccountComponentCharacters"
  by (simp add: validator_defs)

text \<open>
  C6, amended. For every input containing a \<open>*\<close>,
  \<open>NewAnalyticAccount\<close> returns an error: the error of the scan of the part
  before the first \<open>*\<close> if that part has a fault, and the analytic-only
  invalid-character error otherwise. Consequently no account returned by
  \<open>NewAnalyticAccount\<close> is typed Synthetic or has a \<open>*\<close> in its value.
\<close>

theorem analytic_account_rejects_wildcard:
  "(CHR ''*'' \<in> set account \<longrightarrow>
      (\<exists>e. NewAnalyticAccount account = Inl e)
      \<and> NewAnalyticAccount account =
          (case scan True account (takeWhile (\<lambda>c. c \<noteq> CHR ''*'') account) initialState of
             Inl e \<Rightarrow> Inl e
           | Inr st \<Rightarrow> Inl ErrInvalidSingleAccountComponentCharacters))
   \<and> (\<forall>a. NewAnalyticAccount account = Inr a \<longrightarrow>
          accountType a = Analytic \<and> CHR ''*'' \<notin> set (value a))"
proof -
  have eq: "NewAnalyticAccount account =
          (case scan True account (takeWhile (\<lambda>c. c \<noteq> CHR ''*'') account) initialState of
             Inl e \<Rightarrow> Inl e
           | Inr st \<Rightarrow> Inl ErrInvalidSingleAccountComponentCharacters)"
    if w: "CHR ''*'' \<in> set account"
  proof -
    from w have "account \<noteq> []"
      by auto
    then show ?thesis
      using scan_analytic_at_wildcard [OF w, of account initialState]
      by (simp add: NewAnalyticAccount_def newAccount_def split: sum.splits)
  qed
  have err: "\<exists>e. NewAnalyticAccount account = Inl e" if w: "CHR ''*'' \<in> set account"
    using eq [OF w] by (simp split: sum.splits)
  have ok: "accountType a = Analytic \<and> CHR ''*'' \<notin> set (value a)"
    if r: "NewAnalyticAccount account = Inr a" for a
  proof -
    from r have "newAccount account True = Inr a"
      by (simp add: NewAnalyticAccount_def)
    then obtain st where sc: "scan True account account initialState = Inr st"
      and a: "a = \<lparr>accountType = strategy st,
                value = (if needsLower st then lowerAccount account else account)\<rparr>"
      by (rule newAccount_InrD)
    from sc have "CHR ''*'' \<notin> set account"
      by (rule scan_needs_no_wildcard)
    moreover from sc have "strategy st = Analytic"
      by (simp add: scan_analytic_strategy initialState_def)
    ultimately show ?thesis
      using a by (simp add: star_in_lowerAccount)
  qed
  from eq err ok show ?thesis
    by blast
qed

theorem analytic_account_rejects_wildcard_witness:
  "CHR ''*'' \<in> set ''asset.*.treasury''
   \<and> NewAnalyticAccount ''asset.*.treasury''
       = Inl ErrInvalidSingleAccountComponentCharacters
   \<and> NewAnalyticAccount ''asset.account.treasury''
       = Inr \<lparr>accountType = Analytic, value = ''asset.account.treasury''\<rparr>
   \<and> accountType \<lparr>accountType = Analytic, value = ''asset.account.treasury''\<rparr> = Analytic
   \<and> CHR ''*'' \<notin> set (value \<lparr>accountType = Analytic, value = ''asset.account.treasury''\<rparr>)"
proof -
  have h1: "CHR ''*'' \<in> set ''asset.*.treasury''"
    by simp
  have h2: "NewAnalyticAccount ''asset.account.treasury''
       = Inr \<lparr>accountType = Analytic, value = ''asset.account.treasury''\<rparr>"
    by (simp add: validator_defs)
  have pre: "scan True ''asset.*.treasury''
               (takeWhile (\<lambda>c. c \<noteq> CHR ''*'') ''asset.*.treasury'') initialState
             = Inr \<lparr>totalComponents = 1, componentSize = 0, strategy = Analytic,
                    needsLower = False, componentHasStar = False\<rparr>"
    by (simp add: validator_defs)
  from h1 analytic_account_rejects_wildcard [of "''asset.*.treasury''"]
  have "NewAnalyticAccount ''asset.*.treasury'' =
          (case scan True ''asset.*.treasury''
                  (takeWhile (\<lambda>c. c \<noteq> CHR ''*'') ''asset.*.treasury'') initialState of
             Inl e \<Rightarrow> Inl e
           | Inr st \<Rightarrow> Inl ErrInvalidSingleAccountComponentCharacters)"
    by blast
  then have c1: "NewAnalyticAccount ''asset.*.treasury''
       = Inl ErrInvalidSingleAccountComponentCharacters"
    by (simp only: pre sum.case)
  from h2 analytic_account_rejects_wildcard [of "''asset.account.treasury''"]
  have c2: "accountType \<lparr>accountType = Analytic, value = ''asset.account.treasury''\<rparr> = Analytic
   \<and> CHR ''*'' \<notin> set (value \<lparr>accountType = Analytic, value = ''asset.account.treasury''\<rparr>)"
    by blast
  from h1 h2 c1 c2 show ?thesis
    by blast
qed

subsection \<open>The class of an accepted account\<close>

lemma scan_first_label:
  assumes "CHR ''.'' \<notin> set p" "scan ao acc p st = Inr st'"
  shows "totalComponents st' = totalComponents st
         \<and> componentSize st' = componentSize st + length p
         \<and> (componentHasStar st' \<longleftrightarrow> componentHasStar st \<or> CHR ''*'' \<in> set p)"
  using assms
proof (induction p arbitrary: st)
  case Nil
  then show ?case by simp
next
  case (Cons c p)
  from Cons.prems obtain st1 where s1: "step ao acc c st = Inr st1"
    and s2: "scan ao acc p st1 = Inr st'"
    by (auto split: sum.splits)
  from Cons.prems have nd: "c \<noteq> CHR ''.''" "CHR ''.'' \<notin> set p"
    by auto
  have "totalComponents st1 = totalComponents st
        \<and> componentSize st1 = componentSize st + 1
        \<and> (componentHasStar st1 \<longleftrightarrow> componentHasStar st \<or> c = CHR ''*'')"
    using s1 nd(1)
    by (cases "c = CHR ''*''")
       (auto simp: step_star step_other treatStar_def split: if_splits)
  with Cons.IH [OF nd(2) s2] show ?case
    by auto
qed

text \<open>
  C1, as the source has it. Both class checks are guarded by
  \<open>!st.componentHasStar\<close>, and \<open>treatStar\<close> lets a \<open>*\<close> stand
  next to other runes in a label, so a first label that merely contains a
  \<open>*\<close> passes without being \<open>*\<close> itself or a class.
\<close>

theorem first_label_counterexample:
  "NewAccount ''x*.y'' = Inr \<lparr>accountType = Synthetic, value = ''x*.y''\<rparr>
   \<and> firstLabel ''x*.y'' \<noteq> ''*'' \<and> \<not> isClass (firstLabel ''x*.y'')"
  by (simp add: validator_defs firstLabel_def)

text \<open>
  C1, amended. For every input accepted by \<open>NewAccount\<close>, the first
  dot-separated label is one of the seven classes or contains a \<open>*\<close>; for
  every input accepted by \<open>NewAnalyticAccount\<close> it is one of the seven
  classes.
\<close>

theorem first_label_class_or_wildcard:
  "(NewAccount account = Inr a \<longrightarrow>
      isClass (firstLabel account) \<or> CHR ''*'' \<in> set (firstLabel account))
   \<and> (NewAnalyticAccount account = Inr a \<longrightarrow> isClass (firstLabel account))"
proof -
  have main: "isClass (firstLabel account)
              \<or> (\<not> ao \<and> CHR ''*'' \<in> set (firstLabel account))"
    if acc: "newAccount account ao = Inr a" for ao
  proof -
    define p where "p = takeWhile (\<lambda>c. c \<noteq> CHR ''.'') account"
    define q where "q = dropWhile (\<lambda>c. c \<noteq> CHR ''.'') account"
    have split: "account = p @ q"
      by (simp add: p_def q_def)
    have nd: "CHR ''.'' \<notin> set p"
      by (auto simp: p_def dest: set_takeWhileD)
    from acc obtain st where sc: "scan ao account account initialState = Inr st"
      and cls: "totalComponents st = 0 \<and> \<not> componentHasStar st
           \<longrightarrow> isClass (take (componentSize st) account)"
      by (rule newAccount_InrD)
    from sc obtain st1 where s1: "scan ao account p initialState = Inr st1"
      and s2: "scan ao account q st1 = Inr st"
      by (subst (asm) (2) split) (auto simp: scan_append split: sum.splits)
    from scan_first_label [OF nd s1]
    have st1: "totalComponents st1 = 0" "componentSize st1 = length p"
      "componentHasStar st1 \<longleftrightarrow> CHR ''*'' \<in> set p"
      by (simp_all add: initialState_def)
    have tk: "take (length p) account = p"
      by (simp add: split)
    show ?thesis
    proof (cases "CHR ''*'' \<in> set p")
      case True
      have "\<not> ao"
      proof
        assume ao
        with s1 have "CHR ''*'' \<notin> set p"
          by (auto dest: scan_needs_no_wildcard)
        with True show False by simp
      qed
      with True show ?thesis
        by (simp add: firstLabel_def p_def)
    next
      case False
      have "isClass p"
      proof (cases q)
        case Nil
        with s2 have "st = st1" by simp
        with cls st1 False tk show ?thesis by simp
      next
        case (Cons c q')
        then have "c = CHR ''.''"
          using hd_dropWhile [of "\<lambda>c. c \<noteq> CHR ''.''" account]
          by (simp add: q_def)
        with s2 Cons obtain st2 where "treatDot account st1 = Inr st2"
          by (auto simp: step_dot split: sum.splits)
        with st1 False tk show ?thesis
          by (auto simp: treatDot_def split: if_splits)
      qed
      then show ?thesis
        by (simp add: firstLabel_def p_def)
    qed
  qed
  from main [of False] main [of True] show ?thesis
    by (auto simp: NewAccount_def NewAnalyticAccount_def)
qed

theorem first_label_class_or_wildcard_witness:
  "NewAccount ''x*.y'' = Inr \<lparr>accountType = Synthetic, value = ''x*.y''\<rparr>
   \<and> (isClass (firstLabel ''x*.y'') \<or> CHR ''*'' \<in> set (firstLabel ''x*.y''))
   \<and> NewAnalyticAccount ''asset.account.treasury''
       = Inr \<lparr>accountType = Analytic, value = ''asset.account.treasury''\<rparr>
   \<and> isClass (firstLabel ''asset.account.treasury'')"
proof -
  have h1: "NewAccount ''x*.y'' = Inr \<lparr>accountType = Synthetic, value = ''x*.y''\<rparr>"
    by (simp add: validator_defs)
  have h2: "NewAnalyticAccount ''asset.account.treasury''
       = Inr \<lparr>accountType = Analytic, value = ''asset.account.treasury''\<rparr>"
    by (simp add: validator_defs)
  from h1 first_label_class_or_wildcard
    [of "''x*.y''" "\<lparr>accountType = Synthetic, value = ''x*.y''\<rparr>"]
  have c1: "isClass (firstLabel ''x*.y'') \<or> CHR ''*'' \<in> set (firstLabel ''x*.y'')"
    by blast
  from h2 first_label_class_or_wildcard
    [of "''asset.account.treasury''"
        "\<lparr>accountType = Analytic, value = ''asset.account.treasury''\<rparr>"]
  have c2: "isClass (firstLabel ''asset.account.treasury'')"
    by blast
  from h1 h2 c1 c2 show ?thesis
    by blast
qed

subsection \<open>Empty labels\<close>

lemma treatDot_resets: "treatDot acc st = Inr st' \<Longrightarrow> componentSize st' = 0"
  by (auto simp: treatDot_def split: if_splits)

lemma treatDot_empty_label:
  "componentSize st = 0 \<Longrightarrow> treatDot acc st = Inl ErrInvalidAccountComponentSize"
  by (simp add: treatDot_def)

lemma scan_two_dots: "scan ao acc (CHR ''.'' # CHR ''.'' # q) st \<noteq> Inr st'"
proof (cases "treatDot acc st")
  case (Inl e)
  then show ?thesis by (simp add: step_dot)
next
  case (Inr st1)
  then have "treatDot acc st1 = Inl ErrInvalidAccountComponentSize"
    by (intro treatDot_empty_label) (rule treatDot_resets)
  with Inr show ?thesis by (simp add: step_dot)
qed

lemma newAccount_accepts_no_empty_label:
  assumes "newAccount account ao = Inr a"
  shows "account \<noteq> []"
    and "\<And>t. account \<noteq> CHR ''.'' # t"
    and "\<And>t. account \<noteq> t @ ''.''"
    and "\<And>p q. account \<noteq> p @ ''..'' @ q"
proof -
  from assms obtain st where ne: "account \<noteq> []"
    and sc: "scan ao account account initialState = Inr st"
    and la: "last account \<noteq> CHR ''.''"
    by (rule newAccount_InrD)
  show "account \<noteq> []" by (rule ne)
  show "account \<noteq> CHR ''.'' # t" for t
  proof
    assume "account = CHR ''.'' # t"
    then have "scan ao account (CHR ''.'' # t) initialState = Inr st"
      using sc by simp
    then show False
      by (simp add: step_dot treatDot_def initialState_def)
  qed
  show "account \<noteq> t @ ''.''" for t
    using la by auto
  show "account \<noteq> p @ ''..'' @ q" for p q
  proof
    assume "account = p @ ''..'' @ q"
    then have "scan ao account (p @ CHR ''.'' # CHR ''.'' # q) initialState = Inr st"
      using sc by simp
    then obtain st1 where "scan ao account (CHR ''.'' # CHR ''.'' # q) st1 = Inr st"
      unfolding scan_append by (auto split: sum.splits)
    then show False
      by (simp only: scan_two_dots)
  qed
qed

text \<open>
  C8. Every input that is empty, starts with a dot, ends in a dot or contains
  two consecutive dots is rejected with an error by both \<open>NewAccount\<close> and
  \<open>NewAnalyticAccount\<close>.
\<close>

theorem empty_label_rejected:
  assumes "account = [] \<or> (\<exists>t. account = CHR ''.'' # t) \<or> (\<exists>t. account = t @ ''.'')
           \<or> (\<exists>p q. account = p @ ''..'' @ q)"
  shows "(\<exists>e. NewAccount account = Inl e) \<and> (\<exists>e. NewAnalyticAccount account = Inl e)"
proof -
  have "\<exists>e. newAccount account ao = Inl e" for ao
  proof (cases "newAccount account ao")
    case (Inl e)
    then show ?thesis by simp
  next
    case (Inr a)
    from newAccount_accepts_no_empty_label [OF Inr] assms show ?thesis
      by blast
  qed
  then show ?thesis
    by (simp add: NewAccount_def NewAnalyticAccount_def)
qed

theorem empty_label_rejected_witness:
  "(\<exists>e. NewAccount [] = Inl e) \<and> (\<exists>e. NewAnalyticAccount [] = Inl e)
   \<and> (\<exists>e. NewAccount ''.asset'' = Inl e) \<and> (\<exists>e. NewAnalyticAccount ''.asset'' = Inl e)
   \<and> (\<exists>e. NewAccount ''asset.'' = Inl e) \<and> (\<exists>e. NewAnalyticAccount ''asset.'' = Inl e)
   \<and> (\<exists>e. NewAccount ''foo..bar'' = Inl e) \<and> (\<exists>e. NewAnalyticAccount ''foo..bar'' = Inl e)"
proof -
  have h1: "[] = [] \<or> (\<exists>t. [] = CHR ''.'' # t) \<or> (\<exists>t. [] = t @ ''.'')
           \<or> (\<exists>p q. [] = p @ ''..'' @ q)"
    by simp
  have h2: "''.asset'' = [] \<or> (\<exists>t. ''.asset'' = CHR ''.'' # t) \<or> (\<exists>t. ''.asset'' = t @ ''.'')
           \<or> (\<exists>p q. ''.asset'' = p @ ''..'' @ q)"
    by simp
  have "''asset.'' = ''asset'' @ ''.''"
    by simp
  then have h3: "''asset.'' = [] \<or> (\<exists>t. ''asset.'' = CHR ''.'' # t) \<or> (\<exists>t. ''asset.'' = t @ ''.'')
           \<or> (\<exists>p q. ''asset.'' = p @ ''..'' @ q)"
    by blast
  have "''foo..bar'' = ''foo'' @ ''..'' @ ''bar''"
    by simp
  then have h4: "''foo..bar'' = [] \<or> (\<exists>t. ''foo..bar'' = CHR ''.'' # t)
           \<or> (\<exists>t. ''foo..bar'' = t @ ''.'') \<or> (\<exists>p q. ''foo..bar'' = p @ ''..'' @ q)"
    by blast
  from empty_label_rejected [OF h1] empty_label_rejected [OF h2]
    empty_label_rejected [OF h3] empty_label_rejected [OF h4]
  show ?thesis
    by blast
qed

subsection \<open>Validating the normalized value again\<close>

lemma lowerByte_not_upper: "\<not> isUpper c \<Longrightarrow> lowerByte c = c"
  by (auto simp: lowerByte_def isUpper_def upperLetterStart_def upperLetterEnd_def)

lemma rune_lowerByte_upper: "isUpper c \<Longrightarrow> rune (lowerByte c) = rune c + 32"
  by (simp add: lowerByte_def isUpper_def rune_values rune_def)

lemma lowerByte_plain:
  assumes "isPlain c"
  shows "isPlain (lowerByte c) \<and> \<not> isUpper (lowerByte c)"
proof (cases "isUpper c")
  case True
  then show ?thesis
    by (simp add: isPlain_def isUpper_def rune_lowerByte_upper rune_values)
next
  case False
  with assms show ?thesis
    by (simp add: lowerByte_not_upper)
qed

lemma isClass_lowerAccount: "isClass s \<Longrightarrow> lowerAccount s = s"
  unfolding isClass_def
  by (elim disjE) (simp_all add: validator_defs)

lemma isClass_take_lowerAccount:
  assumes "isClass (take n account)"
  shows "isClass (take n (lowerAccount account))"
proof -
  have "take n (lowerAccount account) = lowerAccount (take n account)"
    by (simp add: lowerAccount_def take_map)
  with assms show ?thesis
    by (simp add: isClass_lowerAccount)
qed

lemma treatDot_lowerAccount:
  assumes "treatDot acc st = Inr st'"
  shows "treatDot (lowerAccount acc) (st\<lparr>needsLower := b\<rparr>) = Inr (st'\<lparr>needsLower := b\<rparr>)"
  using assms
  by (auto simp: treatDot_def isClass_take_lowerAccount split: if_splits)

lemma step_lowerAccount:
  assumes "step ao acc c st = Inr st'"
  shows "step ao (lowerAccount acc) (lowerByte c) (st\<lparr>needsLower := b\<rparr>)
         = Inr (st'\<lparr>needsLower := b\<rparr>)"
proof -
  consider (dot) "c = CHR ''.''" | (star) "c = CHR ''*''"
    | (other) "c \<noteq> CHR ''.''" "c \<noteq> CHR ''*''"
    by blast
  then show ?thesis
  proof cases
    case dot
    then have "lowerByte c = CHR ''.''"
      by (simp add: lowerByte_eq_dot)
    with dot assms show ?thesis
      by (simp add: step_dot treatDot_lowerAccount)
  next
    case star
    then have "lowerByte c = CHR ''*''"
      by (simp add: lowerByte_eq_star)
    with star assms show ?thesis
      by (auto simp: step_star treatStar_def split: if_splits)
  next
    case other
    then have l: "lowerByte c \<noteq> CHR ''.''" "lowerByte c \<noteq> CHR ''*''"
      by (simp_all add: lowerByte_eq_dot lowerByte_eq_star)
    from assms other have p: "isPlain c"
      and st': "st' = st\<lparr>componentSize := componentSize st + 1,
                         needsLower := needsLower st \<or> isUpper c\<rparr>"
      by (auto simp: step_other split: if_splits)
    from lowerByte_plain [OF p] st' show ?thesis
      by (simp add: step_other [OF l])
  qed
qed

lemma scan_lowerAccount:
  "scan ao acc cs st = Inr st' \<Longrightarrow>
   scan ao (lowerAccount acc) (lowerAccount cs) (st\<lparr>needsLower := b\<rparr>)
     = Inr (st'\<lparr>needsLower := b\<rparr>)"
proof (induction cs arbitrary: st)
  case Nil
  then show ?case by (simp add: lowerAccount_def)
next
  case (Cons c cs)
  then obtain st1 where s1: "step ao acc c st = Inr st1"
    and s2: "scan ao acc cs st1 = Inr st'"
    by (auto split: sum.splits)
  from step_lowerAccount [OF s1, of b] Cons.IH [OF s2] show ?case
    by (simp add: lowerAccount_def)
qed

text \<open>
  C7. For every input accepted by \<open>NewAccount\<close>, \<open>NewAccount\<close> applied
  to the value of the returned account succeeds and returns the same account:
  the same value and the same type.
\<close>

theorem revalidation_idempotent:
  assumes "NewAccount account = Inr a"
  shows "NewAccount (value a) = Inr a"
proof -
  from assms have r: "newAccount account False = Inr a"
    by (simp add: NewAccount_def)
  then obtain st where ne: "account \<noteq> []"
    and sc: "scan False account account initialState = Inr st"
    and la: "last account \<noteq> CHR ''.''"
    and cls: "totalComponents st = 0 \<and> \<not> componentHasStar st
           \<longrightarrow> isClass (take (componentSize st) account)"
    and len: "\<not> (totalComponents st = 0 \<and> \<not> componentHasStar st)
           \<longrightarrow> 2 \<le> totalComponents st \<or> strategy st = Synthetic"
    and a: "a = \<lparr>accountType = strategy st,
              value = (if needsLower st then lowerAccount account else account)\<rparr>"
    by (rule newAccount_InrD)
  show ?thesis
  proof (cases "needsLower st")
    case False
    with a assms show ?thesis by simp
  next
    case True
    have init: "initialState\<lparr>needsLower := False\<rparr> = initialState"
      by (simp add: initialState_def)
    from scan_lowerAccount [OF sc, of False]
    have sc': "scan False (lowerAccount account) (lowerAccount account) initialState
               = Inr (st\<lparr>needsLower := False\<rparr>)"
      by (simp only: init)
    have ne': "lowerAccount account \<noteq> []"
      using ne by (simp add: lowerAccount_def)
    have la': "rune (last (lowerAccount account)) \<noteq> dot"
      using la ne by (simp add: lowerAccount_def last_map lowerByte_eq_dot rune_eq_dot)
    have cls': "totalComponents st = 0 \<and> \<not> componentHasStar st
           \<longrightarrow> isClass (take (componentSize st) (lowerAccount account))"
      using cls by (simp add: isClass_take_lowerAccount)
    have "newAccount (lowerAccount account) False
          = Inr \<lparr>accountType = strategy st, value = lowerAccount account\<rparr>"
      using ne' la' cls' len by (auto simp: newAccount_def Let_def sc')
    with a True show ?thesis
      by (simp add: NewAccount_def)
  qed
qed

theorem revalidation_idempotent_witness:
  "NewAccount ''asset.Account.Treasury''
     = Inr \<lparr>accountType = Analytic, value = ''asset.account.treasury''\<rparr>
   \<and> NewAccount (value \<lparr>accountType = Analytic, value = ''asset.account.treasury''\<rparr>)
     = Inr \<lparr>accountType = Analytic, value = ''asset.account.treasury''\<rparr>"
proof -
  have h: "NewAccount ''asset.Account.Treasury''
     = Inr \<lparr>accountType = Analytic, value = ''asset.account.treasury''\<rparr>"
    by (simp add: validator_defs)
  from h revalidation_idempotent [OF h] show ?thesis
    by simp
qed

subsection \<open>Upper case in the class\<close>

text \<open>
  C4. The class checks compare the raw slice of the input with the lower-case
  class names, and the fold to lower case happens only after them. So
  \<open>Asset.Account.Treasury\<close> is rejected for its class, while the same input
  with a lower-case class is accepted and folded.
\<close>

theorem uppercase_class_rejected:
  "NewAccount ''Asset.Account.Treasury'' = Inl ErrAccountPathViolation
   \<and> NewAccount ''asset.Account.Treasury''
       = Inr \<lparr>accountType = Analytic, value = ''asset.account.treasury''\<rparr>"
  by (simp add: validator_defs)

subsection \<open>The number of labels\<close>

lemma treatDot_total:
  assumes "treatDot acc st = Inr st'"
  shows "totalComponents st' = totalComponents st + 1"
    and "totalComponents st \<le> maxComponents \<Longrightarrow> totalComponents st' \<le> maxComponents"
  using assms by (auto simp: treatDot_def maxComponents_def split: if_splits)

lemma step_total:
  assumes "step ao acc c st = Inr st'"
  shows "totalComponents st' = totalComponents st + (if c = CHR ''.'' then 1 else 0)"
    and "totalComponents st \<le> maxComponents \<Longrightarrow> totalComponents st' \<le> maxComponents"
proof -
  consider (dot) "c = CHR ''.''" | (star) "c = CHR ''*''"
    | (other) "c \<noteq> CHR ''.''" "c \<noteq> CHR ''*''"
    by blast
  then have "totalComponents st' = totalComponents st + (if c = CHR ''.'' then 1 else 0)
     \<and> (totalComponents st \<le> maxComponents \<longrightarrow> totalComponents st' \<le> maxComponents)"
  proof cases
    case dot
    with assms treatDot_total [of acc st st'] show ?thesis
      by (simp add: step_dot)
  next
    case star
    with assms show ?thesis
      by (auto simp: step_star treatStar_def split: if_splits)
  next
    case other
    with assms show ?thesis
      by (auto simp: step_other split: if_splits)
  qed
  then show "totalComponents st' = totalComponents st + (if c = CHR ''.'' then 1 else 0)"
    and "totalComponents st \<le> maxComponents \<Longrightarrow> totalComponents st' \<le> maxComponents"
    by simp_all
qed

lemma scan_total:
  "scan ao acc cs st = Inr st' \<Longrightarrow>
   totalComponents st' = totalComponents st + length (filter (\<lambda>c. c = CHR ''.'') cs)"
proof (induction cs arbitrary: st)
  case Nil
  then show ?case by simp
next
  case (Cons c cs)
  then obtain st1 where s1: "step ao acc c st = Inr st1"
    and s2: "scan ao acc cs st1 = Inr st'"
    by (auto split: sum.splits)
  from step_total(1) [OF s1] Cons.IH [OF s2] show ?case
    by simp
qed

lemma scan_total_bound:
  "scan ao acc cs st = Inr st' \<Longrightarrow> totalComponents st \<le> maxComponents \<Longrightarrow>
   totalComponents st' \<le> maxComponents"
proof (induction cs arbitrary: st)
  case Nil
  then show ?case by simp
next
  case (Cons c cs)
  then obtain st1 where s1: "step ao acc c st = Inr st1"
    and s2: "scan ao acc cs st1 = Inr st'"
    by (auto split: sum.splits)
  from step_total(2) [OF s1 Cons.prems(2)] Cons.IH [OF s2] show ?case
    by simp
qed

text \<open>
  The scan counts the dots, and no dot is accepted once
  \<open>maxComponents\<close> of them have been: an accepted input has at most
  \<open>maxComponents + 1\<close> labels.
\<close>

lemma accepted_label_count:
  assumes "newAccount account ao = Inr a"
  shows "labelCount account \<le> maxComponents + 1"
proof -
  from assms obtain st where sc: "scan ao account account initialState = Inr st"
    by (rule newAccount_InrD)
  from scan_total [OF sc] scan_total_bound [OF sc] show ?thesis
    by (simp add: labelCount_def initialState_def)
qed

text \<open>
  A wildcard-free input of fewer than three labels is accepted only if it is
  exactly a class name.
\<close>

lemma short_accepted_is_class:
  assumes "newAccount account ao = Inr a"
    and "CHR ''*'' \<notin> set account" "labelCount account < 3"
  shows "isClass account"
proof -
  from assms(1) obtain st where sc: "scan ao account account initialState = Inr st"
    and cls: "totalComponents st = 0 \<and> \<not> componentHasStar st
           \<longrightarrow> isClass (take (componentSize st) account)"
    and len: "\<not> (totalComponents st = 0 \<and> \<not> componentHasStar st)
           \<longrightarrow> 2 \<le> totalComponents st \<or> strategy st = Synthetic"
    by (rule newAccount_InrD)
  have tot: "totalComponents st = length (filter (\<lambda>c. c = CHR ''.'') account)"
    using scan_total [OF sc] by (simp add: initialState_def)
  have "scan False account account initialState = Inr st"
    using sc assms(2) by (cases ao) (simp_all add: scan_mode_irrelevant)
  then have an: "strategy st = Analytic"
    using assms(2) by (simp add: scan_strategy initialState_def)
  from tot assms(3) have "totalComponents st < 2"
    by (simp add: labelCount_def)
  with len an have z: "totalComponents st = 0" "\<not> componentHasStar st"
    by auto
  with tot have nd: "CHR ''.'' \<notin> set account"
    by (auto simp: filter_empty_conv)
  from scan_first_label [OF nd sc] have "componentSize st = length account"
    by (simp add: initialState_def)
  with cls z show ?thesis
    by simp
qed

text \<open>
  C2. The input \<open>asset\<close> has one label and no wildcard, and both
  constructors accept it as an Analytic account: with no dot read and a valid
  class, the first branch of the final check is taken and the length check in
  its \<open>else if\<close> is skipped. The two-label input \<open>asset.account\<close>
  reaches that check and is rejected.
\<close>

theorem single_class_label_accepted:
  "labelCount ''asset'' = 1
   \<and> NewAccount ''asset'' = Inr \<lparr>accountType = Analytic, value = ''asset''\<rparr>
   \<and> NewAnalyticAccount ''asset'' = Inr \<lparr>accountType = Analytic, value = ''asset''\<rparr>
   \<and> NewAccount ''asset.account'' = Inl ErrInvalidAccountStructure"
  by (simp add: validator_defs labelCount_def)

lemma scan_letters:
  "scan ao acc (replicate n CHR ''a'') st = Inr (st\<lparr>componentSize := componentSize st + n\<rparr>)"
proof (induction n arbitrary: st)
  case 0
  show ?case by simp
next
  case (Suc n)
  have "step ao acc CHR ''a'' st = Inr (st\<lparr>componentSize := componentSize st + 1\<rparr>)"
    by (simp add: step_def rune_def rune_values)
  then show ?case
    by (simp add: Suc.IH)
qed

lemma scan_short_labels:
  assumes "0 < totalComponents st" "totalComponents st + n \<le> maxComponents"
    and "componentSize st = 1" "\<not> componentHasStar st"
  shows "scan ao acc (concat (replicate n ''.a'')) st
         = Inr (st\<lparr>totalComponents := totalComponents st + n\<rparr>)"
  using assms
proof (induction n arbitrary: st)
  case 0
  show ?case by simp
next
  case (Suc n)
  let ?st1 = "st\<lparr>totalComponents := totalComponents st + 1\<rparr>"
  have d: "treatDot acc st = Inr (st\<lparr>totalComponents := totalComponents st + 1,
                                     componentSize := 0, componentHasStar := False\<rparr>)"
    using Suc.prems by (simp add: treatDot_def maxLabelSize_def)
  have "scan ao acc ''.a'' st = Inr ?st1"
    using Suc.prems by (simp add: step_dot d) (simp add: step_def rune_def rune_values)
  moreover have "scan ao acc (concat (replicate n ''.a'')) ?st1
        = Inr (?st1\<lparr>totalComponents := totalComponents ?st1 + n\<rparr>)"
    using Suc.prems by (intro Suc.IH) simp_all
  ultimately have "scan ao acc (''.a'' @ concat (replicate n ''.a'')) st
        = Inr (st\<lparr>totalComponents := totalComponents st + Suc n\<rparr>)"
    by (simp only: scan_append) simp
  then show ?case
    by simp
qed

lemma count_dots_short_labels:
  "length (filter (\<lambda>c. c = CHR ''.'') (concat (replicate n ''.a''))) = n"
  by (induction n) simp_all

lemma last_short_labels: "last (xs @ concat (replicate (Suc n) ''.a'')) = CHR ''a''"
proof (induction n arbitrary: xs)
  case 0
  show ?case by simp
next
  case (Suc n)
  have "xs @ concat (replicate (Suc (Suc n)) ''.a'')
        = (xs @ ''.a'') @ concat (replicate (Suc n) ''.a'')"
    by simp
  then show ?case
    by (simp only: Suc.IH)
qed

lemma many_labels_accepted:
  assumes "0 < n" "n < maxComponents"
  shows "newAccount (''asset.a'' @ concat (replicate n ''.a'')) ao
     = Inr \<lparr>accountType = Analytic, value = ''asset.a'' @ concat (replicate n ''.a'')\<rparr>"
proof -
  define account where "account = ''asset.a'' @ concat (replicate n ''.a'')"
  have tk: "take (Suc (Suc (Suc (Suc (Suc 0))))) account = ''asset''"
    by (simp add: account_def)
  let ?st1 = "\<lparr>totalComponents = 1, componentSize = 1, strategy = Analytic,
               needsLower = False, componentHasStar = False\<rparr>"
  have s1: "scan ao account ''asset.a'' initialState = Inr ?st1"
    by (simp add: tk initialState_def step_def treatDot_def rune_def rune_values
        isClass_def asset_def maxLabelSize_def)
  let ?st2 = "\<lparr>totalComponents = Suc n, componentSize = 1, strategy = Analytic,
               needsLower = False, componentHasStar = False\<rparr>"
  have "scan ao account (concat (replicate n ''.a'')) ?st1
            = Inr (?st1\<lparr>totalComponents := totalComponents ?st1 + n\<rparr>)"
    using assms by (intro scan_short_labels) simp_all
  then have s2: "scan ao account (concat (replicate n ''.a'')) ?st1 = Inr ?st2"
    by simp
  have "scan ao account (''asset.a'' @ concat (replicate n ''.a'')) initialState = Inr ?st2"
    by (simp only: scan_append s1 s2 sum.case)
  then have sc: "scan ao account account initialState = Inr ?st2"
    by (simp only: flip: account_def)
  have la: "last account = CHR ''a''"
  proof (cases n)
    case 0
    then show ?thesis by (simp add: account_def)
  next
    case (Suc m)
    then show ?thesis
      unfolding account_def by (simp only: last_short_labels)
  qed
  have ne: "account \<noteq> []"
    by (simp add: account_def)
  have "newAccount account ao = Inr \<lparr>accountType = Analytic, value = account\<rparr>"
    using ne assms(1) by (simp add: newAccount_def Let_def sc la rune_def rune_values)
  then show ?thesis
    by (simp only: account_def)
qed

lemma many_labels_count:
  "labelCount (''asset.a'' @ concat (replicate n ''.a'')) = n + 2"
  by (simp add: labelCount_def count_dots_short_labels)

text \<open>
  C5. The input \<open>asset.a\<close> followed by 65534 times \<open>.a\<close> has 65536
  labels, and both constructors accept it: \<open>treatDot\<close> compares the number
  of dots already read with \<open>maxComponents\<close>, and the label after the last
  dot is not counted.
\<close>

theorem label_limit_exceeded:
  "labelCount (''asset.a'' @ concat (replicate 65534 ''.a'')) = 65536
   \<and> NewAccount (''asset.a'' @ concat (replicate 65534 ''.a''))
     = Inr \<lparr>accountType = Analytic, value = ''asset.a'' @ concat (replicate 65534 ''.a'')\<rparr>
   \<and> NewAnalyticAccount (''asset.a'' @ concat (replicate 65534 ''.a''))
     = Inr \<lparr>accountType = Analytic, value = ''asset.a'' @ concat (replicate 65534 ''.a'')\<rparr>"
proof -
  have n: "(0::nat) < 65534" "(65534::nat) < maxComponents"
    by (simp_all add: maxComponents_def)
  have "(65534::nat) + 2 = 65536"
    by simp
  then have c: "labelCount (''asset.a'' @ concat (replicate 65534 ''.a'')) = 65536"
    by (simp only: many_labels_count)
  show ?thesis
    unfolding NewAccount_def NewAnalyticAccount_def
    by (intro conjI c many_labels_accepted [OF n])
qed

subsection \<open>The size of a label\<close>

lemma long_final_label_accepted:
  assumes "0 < n"
  shows "newAccount (''asset.account.'' @ replicate n CHR ''a'') ao
     = Inr \<lparr>accountType = Analytic, value = ''asset.account.'' @ replicate n CHR ''a''\<rparr>"
proof -
  define account where "account = ''asset.account.'' @ replicate n CHR ''a''"
  have tk: "take (Suc (Suc (Suc (Suc (Suc 0))))) account = ''asset''"
    by (simp add: account_def)
  let ?st1 = "\<lparr>totalComponents = 2, componentSize = 0, strategy = Analytic,
               needsLower = False, componentHasStar = False\<rparr>"
  let ?st2 = "\<lparr>totalComponents = 2, componentSize = n, strategy = Analytic,
               needsLower = False, componentHasStar = False\<rparr>"
  have s1: "scan ao account ''asset.account.'' initialState = Inr ?st1"
    by (simp add: tk initialState_def step_def treatDot_def rune_def rune_values
        isClass_def asset_def maxLabelSize_def maxComponents_def)
  have s2: "scan ao account (replicate n CHR ''a'') ?st1 = Inr ?st2"
    by (simp add: scan_letters)
  have "scan ao account (''asset.account.'' @ replicate n CHR ''a'') initialState
        = Inr ?st2"
    by (simp only: scan_append s1 s2 sum.case)
  then have sc: "scan ao account account initialState = Inr ?st2"
    by (simp only: flip: account_def)
  have la: "last account = CHR ''a''"
    using assms by (simp add: account_def)
  have ne: "account \<noteq> []"
    by (simp add: account_def)
  have "newAccount account ao = Inr \<lparr>accountType = Analytic, value = account\<rparr>"
    using ne by (simp add: newAccount_def Let_def sc la rune_def rune_values)
  then show ?thesis
    by (simp only: account_def)
qed

lemma inner_label_accepted:
  assumes "0 < n" "n \<le> maxLabelSize"
  shows "newAccount (''asset.'' @ replicate n CHR ''a'' @ ''.treasury'') ao
     = Inr \<lparr>accountType = Analytic,
            value = ''asset.'' @ replicate n CHR ''a'' @ ''.treasury''\<rparr>"
proof -
  define account where "account = ''asset.'' @ replicate n CHR ''a'' @ ''.treasury''"
  have tk: "take (Suc (Suc (Suc (Suc (Suc 0))))) account = ''asset''"
    by (simp add: account_def)
  let ?st1 = "\<lparr>totalComponents = 1, componentSize = 0, strategy = Analytic,
               needsLower = False, componentHasStar = False\<rparr>"
  let ?st2 = "\<lparr>totalComponents = 1, componentSize = n, strategy = Analytic,
               needsLower = False, componentHasStar = False\<rparr>"
  let ?st3 = "\<lparr>totalComponents = 2, componentSize = 8, strategy = Analytic,
               needsLower = False, componentHasStar = False\<rparr>"
  have s1: "scan ao account ''asset.'' initialState = Inr ?st1"
    by (simp add: tk initialState_def step_def treatDot_def rune_def rune_values
        isClass_def asset_def maxLabelSize_def maxComponents_def)
  have s2: "scan ao account (replicate n CHR ''a'') ?st1 = Inr ?st2"
    by (simp add: scan_letters)
  have s3: "scan ao account ''.treasury'' ?st2 = Inr ?st3"
    using assms
    by (simp add: step_def treatDot_def rune_def rune_values maxComponents_def)
  have "scan ao account (''asset.'' @ replicate n CHR ''a'' @ ''.treasury'') initialState
        = Inr ?st3"
    by (simp only: scan_append s1 s2 s3 sum.case)
  then have sc: "scan ao account account initialState = Inr ?st3"
    by (simp only: flip: account_def)
  have la: "last account = CHR ''y''"
    by (simp add: account_def)
  have ne: "account \<noteq> []"
    by (simp add: account_def)
  have "newAccount account ao = Inr \<lparr>accountType = Analytic, value = account\<rparr>"
    using ne by (simp add: newAccount_def Let_def sc la rune_def rune_values)
  then show ?thesis
    by (simp only: account_def)
qed

lemma inner_label_rejected:
  assumes "maxLabelSize < n"
  shows "newAccount (''asset.'' @ replicate n CHR ''a'' @ ''.treasury'') ao
     = Inl ErrInvalidAccountComponentSize"
proof -
  define account where "account = ''asset.'' @ replicate n CHR ''a'' @ ''.treasury''"
  have tk: "take (Suc (Suc (Suc (Suc (Suc 0))))) account = ''asset''"
    by (simp add: account_def)
  let ?st1 = "\<lparr>totalComponents = 1, componentSize = 0, strategy = Analytic,
               needsLower = False, componentHasStar = False\<rparr>"
  let ?st2 = "\<lparr>totalComponents = 1, componentSize = n, strategy = Analytic,
               needsLower = False, componentHasStar = False\<rparr>"
  have s1: "scan ao account ''asset.'' initialState = Inr ?st1"
    by (simp add: tk initialState_def step_def treatDot_def rune_def rune_values
        isClass_def asset_def maxLabelSize_def maxComponents_def)
  have s2: "scan ao account (replicate n CHR ''a'') ?st1 = Inr ?st2"
    by (simp add: scan_letters)
  have s3: "scan ao account ''.treasury'' ?st2 = Inl ErrInvalidAccountComponentSize"
    using assms by (simp add: step_dot treatDot_def)
  have "scan ao account (''asset.'' @ replicate n CHR ''a'' @ ''.treasury'') initialState
        = Inl ErrInvalidAccountComponentSize"
    by (simp only: scan_append s1 s2 s3 sum.case)
  then have sc: "scan ao account account initialState = Inl ErrInvalidAccountComponentSize"
    by (simp only: flip: account_def)
  have ne: "account \<noteq> []"
    by (simp add: account_def)
  have "newAccount account ao = Inl ErrInvalidAccountComponentSize"
    using ne by (simp add: newAccount_def sc)
  then show ?thesis
    by (simp only: account_def)
qed

text \<open>
  C3. A final label of 300 runes is accepted by both constructors, since the
  size of a label is checked by \<open>treatDot\<close> only, which the last label
  never reaches; and so is a label of 256 runes before a dot, since
  \<open>maxLabelSize\<close> is 256 and the check is \<open>componentSize > maxLabelSize\<close>.
\<close>

theorem oversized_label_accepted:
  "NewAccount (''asset.account.'' @ replicate 300 CHR ''a'')
     = Inr \<lparr>accountType = Analytic, value = ''asset.account.'' @ replicate 300 CHR ''a''\<rparr>
   \<and> NewAnalyticAccount (''asset.account.'' @ replicate 300 CHR ''a'')
     = Inr \<lparr>accountType = Analytic, value = ''asset.account.'' @ replicate 300 CHR ''a''\<rparr>
   \<and> NewAccount (''asset.'' @ replicate 256 CHR ''a'' @ ''.treasury'')
     = Inr \<lparr>accountType = Analytic,
            value = ''asset.'' @ replicate 256 CHR ''a'' @ ''.treasury''\<rparr>
   \<and> NewAnalyticAccount (''asset.'' @ replicate 256 CHR ''a'' @ ''.treasury'')
     = Inr \<lparr>accountType = Analytic,
            value = ''asset.'' @ replicate 256 CHR ''a'' @ ''.treasury''\<rparr>"
proof -
  have f: "(0::nat) < 300"
    by simp
  have i: "(0::nat) < 256" "(256::nat) \<le> maxLabelSize"
    by (simp_all add: maxLabelSize_def)
  show ?thesis
    unfolding NewAccount_def NewAnalyticAccount_def
    by (intro conjI long_final_label_accepted [OF f] inner_label_accepted [OF i])
qed

end
